theory Spec2Isabelle
  imports Complex_Main
begin

section \<open>Grid crawl engine: shallow embedding of \<open>utils.py\<close> and \<open>scraper.py\<close>\<close>

text \<open>
  Conventions of the embedding.
  \<^item> A Python \<open>str\<close> is a \<open>string\<close>; its characters are the 8-bit characters of HOL,
    among which the decimal digits are exactly \<open>0\<close> to \<open>9\<close>.
  \<^item> A Python \<open>float\<close> is a \<open>real\<close>: arithmetic is exact, rounding is not modelled.
  \<^item> \<open>None\<close> is \<open>None\<close> of an option type; an exception is a value \<open>Inl e\<close> of a sum type.
\<close>

datatype exn = FileNotFoundError | ValueError | KeyError | AttributeError | IndexError

subsection \<open>Persistence: \<open>write_rows_to_csv\<close>\<close>

text \<open>
  A file is the list of the rows written to it by \<open>csv.writer.writerow\<close>; the file system maps
  the paths of the existing files to their contents. The operating system is taken to accept
  every request (no permission error, no directory in the place of the file); the one failure
  kept is the one determined by the argument alone: \<open>os.makedirs\<close> of the empty path raises
  \<open>FileNotFoundError\<close>.
\<close>

type_synonym 'c fs = "string \<rightharpoonup> 'c list list"

text \<open>\<open>posixpath.dirname\<close>: the part up to the last slash, without its trailing slashes unless
  it consists of slashes only.\<close>

definition dirname :: "string \<Rightarrow> string" where
  "dirname p =
     (let head = rev (dropWhile (\<lambda>c. c \<noteq> CHR ''/'') (rev p))
      in if head \<noteq> [] \<and> \<not> list_all (\<lambda>c. c = CHR ''/'') head
         then rev (dropWhile (\<lambda>c. c = CHR ''/'') (rev head))
         else head)"

definition writerow :: "'c list list \<Rightarrow> 'c list \<Rightarrow> 'c list list" where
  "writerow f r = f @ [r]"

text \<open>Truth value of the \<open>header\<close> argument: \<open>None\<close> and the empty list are false.\<close>

definition truthy_header :: "'c list option \<Rightarrow> bool" where
  "truthy_header header = (case header of None \<Rightarrow> False | Some h \<Rightarrow> h \<noteq> [])"

definition write_rows_to_csv ::
  "'c fs \<Rightarrow> string \<Rightarrow> 'c list list \<Rightarrow> 'c list option \<Rightarrow> exn + 'c fs" where
  "write_rows_to_csv fs path rows header =
     (let first_time = (fs path = None)
      in if dirname path = [] then Inl FileNotFoundError
         else
           let f0 = (case fs path of None \<Rightarrow> [] | Some old \<Rightarrow> old);
               f1 = (if truthy_header header \<and> first_time then writerow f0 (the header) else f0)
           in Inr (fs(path \<mapsto> foldl writerow f1 rows)))"

subsection \<open>Listing extractor: \<open>parse_left_panel_pois\<close>\<close>

text \<open>
  The page is modelled after parsing: a tree of tags (name, attributes as a dictionary,
  children) and strings, as \<open>BeautifulSoup\<close> builds it. The operations the extractor calls are
  modelled on that tree: \<open>descendants\<close> in document order, \<open>find_all\<close> and \<open>find\<close> (here
  \<open>find_first\<close>) by tag name and attribute test, \<open>get\<close> (here \<open>get_attr\<close>), the subscript
  \<open>tag[key]\<close> (here \<open>getitem\<close>, which raises \<open>KeyError\<close> on a missing attribute), and
  \<open>get_text(strip=True)\<close>. A string has none of the tag operations: applied to it, the body
  of the loop raises. The body of the \<open>try\<close> block is \<open>extract_card\<close>; \<open>card_loop\<close> is the
  \<open>for\<close> loop with its cap test and its handler.
\<close>

datatype node =
    Tag string "(string \<times> string) list" "node list"
  | NavigableString string

record candidate =
  name :: string
  link :: string
  rating :: string
  reviews :: string

definition bind_exn :: "exn + 'a \<Rightarrow> ('a \<Rightarrow> exn + 'b) \<Rightarrow> exn + 'b" where
  "bind_exn m f = (case m of Inl e \<Rightarrow> Inl e | Inr x \<Rightarrow> f x)"

definition is_space :: "char \<Rightarrow> bool" where
  "is_space c = (of_char c \<in> {9, 10, 11, 12, 13, 28, 29, 30, 31, 32, 133, 160 :: nat})"

definition strip_chars :: "(char \<Rightarrow> bool) \<Rightarrow> string \<Rightarrow> string" where
  "strip_chars p s = rev (dropWhile p (rev (dropWhile p s)))"

fun split_ws :: "string \<Rightarrow> string \<Rightarrow> string list" where
  "split_ws w [] = (if w = [] then [] else [w])"
| "split_ws w (c # cs) =
     (if is_space c then (if w = [] then [] else [w]) @ split_ws [] cs
      else split_ws (w @ [c]) cs)"

fun str_in :: "string \<Rightarrow> string \<Rightarrow> bool" where
  "str_in sub [] = (sub = [])"
| "str_in sub (c # cs) = (take (length sub) (c # cs) = sub \<or> str_in sub cs)"

fun descendants :: "node \<Rightarrow> node list" where
  "descendants (Tag n a cs) = concat (map (\<lambda>c. c # descendants c) cs)"
| "descendants (NavigableString s) = []"

fun get_attr :: "node \<Rightarrow> string \<Rightarrow> string option" where
  "get_attr (Tag n a cs) k = map_of a k"
| "get_attr (NavigableString s) k = None"

fun getitem :: "node \<Rightarrow> string \<Rightarrow> exn + string" where
  "getitem (Tag n a cs) k = (case map_of a k of None \<Rightarrow> Inl KeyError | Some v \<Rightarrow> Inr v)"
| "getitem (NavigableString s) k = Inl AttributeError"

fun tag_named :: "string \<Rightarrow> node \<Rightarrow> bool" where
  "tag_named nm (Tag n a cs) = (n = nm)"
| "tag_named nm (NavigableString s) = False"

definition has_class :: "string \<Rightarrow> node \<Rightarrow> bool" where
  "has_class c t =
     (case get_attr t ''class'' of None \<Rightarrow> False
      | Some v \<Rightarrow> c \<in> set (split_ws [] v) \<or> v = c)"

definition has_attr :: "string \<Rightarrow> node \<Rightarrow> bool" where
  "has_attr k t = (get_attr t k \<noteq> None)"

definition find_all :: "node \<Rightarrow> string \<Rightarrow> (node \<Rightarrow> bool) \<Rightarrow> node list" where
  "find_all t nm p = filter (\<lambda>d. tag_named nm d \<and> p d) (descendants t)"

definition find_first :: "node \<Rightarrow> string \<Rightarrow> (node \<Rightarrow> bool) \<Rightarrow> node option" where
  "find_first t nm p = (case find_all t nm p of [] \<Rightarrow> None | d # _ \<Rightarrow> Some d)"

fun strings_of :: "node list \<Rightarrow> string list" where
  "strings_of [] = []"
| "strings_of (Tag n a cs # ds) = strings_of ds"
| "strings_of (NavigableString s # ds) = s # strings_of ds"

definition get_text_strip :: "node \<Rightarrow> string" where
  "get_text_strip t =
     concat (filter (\<lambda>s. s \<noteq> []) (map (strip_chars is_space) (strings_of (descendants t))))"


definition truthy :: "string option \<Rightarrow> bool" where
  "truthy v = (case v of None \<Rightarrow> False | Some s \<Rightarrow> s \<noteq> [])"

definition or_else :: "'a option \<Rightarrow> 'a option \<Rightarrow> 'a option" where
  "or_else x y = (case x of None \<Rightarrow> y | Some v \<Rightarrow> Some v)"

definition card_link :: "node \<Rightarrow> exn + string" where
  "card_link crd =
     (if tag_named ''a'' crd \<and> truthy (get_attr crd ''href'') then getitem crd ''href''
      else case find_first crd ''a'' (has_attr ''href'') of
             Some link_tag \<Rightarrow> getitem link_tag ''href''
           | None \<Rightarrow> Inr [])"

definition card_name :: "node \<Rightarrow> exn + string option" where
  "card_name crd =
     bind_exn
       (if truthy (get_attr crd ''aria-label'') then map_sum id Some (getitem crd ''aria-label'')
        else if tag_named ''a'' crd \<and> truthy (get_attr crd ''aria-label'')
          then map_sum id Some (getitem crd ''aria-label'')
        else Inr None)
       (\<lambda>name.
          let name1 =
                (if \<not> truthy name
                 then (case or_else (find_first crd ''div'' (has_class ''qBF1Pd''))
                                    (find_first crd ''div'' (has_class ''fontHeadlineSmall'')) of
                         Some name_tag \<Rightarrow> Some (get_text_strip name_tag)
                       | None \<Rightarrow> name)
                 else name);
              name2 = (if \<not> truthy name1 then Some (take 200 (get_text_strip crd)) else name1)
          in Inr name2)"

definition card_rating :: "node \<Rightarrow> string" where
  "card_rating crd =
     (case or_else (find_first crd ''span'' (has_class ''MW4etd''))
                   (find_first crd ''span'' (has_attr ''aria-label'')) of
        Some rating_tag \<Rightarrow> get_text_strip rating_tag
      | None \<Rightarrow> [])"

definition card_reviews :: "node \<Rightarrow> string" where
  "card_reviews crd =
     (let raw_reviews =
            (case or_else (find_first crd ''span'' (has_class ''UY7F9''))
                          (find_first crd ''span'' (has_attr ''aria-hidden'')) of
               Some reviews_tag \<Rightarrow> get_text_strip reviews_tag
             | None \<Rightarrow> [])
      in strip_chars (\<lambda>c. c = CHR ''('' \<or> c = CHR '')'') raw_reviews)"

fun extract_card :: "node \<Rightarrow> exn + candidate option" where
  "extract_card (NavigableString s) = Inl AttributeError"
| "extract_card (Tag n a cs) =
     (let crd = Tag n a cs in
      bind_exn (card_link crd) (\<lambda>lnk.
      bind_exn (card_name crd) (\<lambda>nm.
        let rating = card_rating crd;
            reviews = card_reviews crd
        in if truthy nm
           then Inr (Some \<lparr>name = the nm, link = lnk, rating = rating, reviews = reviews\<rparr>)
           else Inr None)))"

fun card_loop :: "int \<Rightarrow> node list \<Rightarrow> candidate list \<Rightarrow> candidate list" where
  "card_loop max_results [] candidates = candidates"
| "card_loop max_results (crd # cards) candidates =
     (if int (length candidates) \<ge> max_results then candidates
      else case extract_card crd of
             Inl e \<Rightarrow> card_loop max_results cards candidates
           | Inr None \<Rightarrow> card_loop max_results cards candidates
           | Inr (Some c) \<Rightarrow> card_loop max_results cards (candidates @ [c]))"

fun place_links :: "node list \<Rightarrow> exn + node list" where
  "place_links [] = Inr []"
| "place_links (a # as) =
     bind_exn (getitem a ''href'') (\<lambda>h1.
     bind_exn (if str_in ''/place/'' h1 then Inr True
               else map_sum id (str_in ''/maps'') (getitem a ''href'')) (\<lambda>looks_like_place.
     bind_exn (place_links as) (\<lambda>rest.
       Inr (if looks_like_place \<and> get_text_strip a \<noteq> [] then a # rest else rest))))"

definition select_cards :: "node \<Rightarrow> exn + node list" where
  "select_cards soup =
     (let cards = find_all soup ''div'' (has_class ''Nv2PK'')
      in if cards = [] then place_links (find_all soup ''a'' (has_attr ''href''))
         else Inr cards)"

definition parse_left_panel_pois :: "node \<Rightarrow> int \<Rightarrow> exn + candidate list" where
  "parse_left_panel_pois soup max_results =
     bind_exn (select_cards soup) (\<lambda>cards. Inr (card_loop max_results cards []))"

text \<open>What the loop keeps of one card: its candidate, or nothing when the \<open>try\<close> block
  raises or the name is empty.\<close>

definition card_output :: "node \<Rightarrow> candidate list" where
  "card_output crd =
     (case extract_card crd of
        Inl e \<Rightarrow> []
      | Inr None \<Rightarrow> []
      | Inr (Some c) \<Rightarrow> [c])"

text \<open>A small result panel, used to run the extractor: four cards, the second without any
  name.\<close>

definition card_arena :: node where
  "card_arena = Tag ''div'' [(''class'', ''Nv2PK THOPZb'')]
     [Tag ''a'' [(''href'', ''/maps/place/A/@38.9,-77.03,15z''), (''aria-label'', ''Arena One'')] [],
      Tag ''span'' [(''class'', ''MW4etd'')] [NavigableString '' 4.5 ''],
      Tag ''span'' [(''class'', ''UY7F9'')] [NavigableString ''(120)'']]"

definition card_blank :: node where
  "card_blank = Tag ''div'' [(''class'', ''Nv2PK'')] [Tag ''span'' [] [NavigableString ''   '']]"

definition card_hall :: node where
  "card_hall = Tag ''div'' [(''class'', ''Nv2PK''), (''aria-label'', ''Hall Two'')] []"

definition card_stadium :: node where
  "card_stadium = Tag ''div'' [(''class'', ''Nv2PK'')]
     [Tag ''div'' [(''class'', ''qBF1Pd'')] [NavigableString ''Stadium Three'']]"

definition panel :: node where
  "panel = Tag ''[document]'' [] [card_arena, card_blank, card_hall, card_stadium]"

subsection \<open>Coordinate resolver: \<open>extract_coordinates_from_url\<close>\<close>

text \<open>
  The two calls of the \<open>re\<close> module are run by a backtracking matcher for the fragment the two
  patterns use: a character or a digit, taken once, optionally, or one or more times
  (greedy), in groups that are captured or not. \<open>match_items\<close> lists the remainders of the
  string after every way to match, the preferred first; \<open>re_search\<close> tries the positions from
  the left, \<open>re_findall\<close> collects the matches that do not overlap. \<open>py_float\<close> is \<open>float\<close> on
  plain decimal literals, the only strings the groups can hold.
\<close>

definition is_digit :: "char \<Rightarrow> bool" where
  "is_digit c = (48 \<le> (of_char c :: nat) \<and> (of_char c :: nat) \<le> 57)"

datatype atom = Lit char | Digit

datatype item = One atom | Opt atom | Plus atom

type_synonym pattern = "(bool \<times> item list) list"

fun atom_ok :: "atom \<Rightarrow> char \<Rightarrow> bool" where
  "atom_ok (Lit c) x = (x = c)"
| "atom_ok Digit x = is_digit x"

fun match_items :: "item list \<Rightarrow> string \<Rightarrow> string list" where
  "match_items [] s = [s]"
| "match_items (One a # its) s =
     (case s of [] \<Rightarrow> [] | c # cs \<Rightarrow> if atom_ok a c then match_items its cs else [])"
| "match_items (Opt a # its) s =
     (case s of [] \<Rightarrow> [] | c # cs \<Rightarrow> if atom_ok a c then match_items its cs else [])
     @ match_items its s"
| "match_items (Plus a # its) s =
     concat (map (\<lambda>n. match_items its (drop n s))
                 (rev [1 ..< Suc (length (takeWhile (atom_ok a) s))]))"

fun match_groups :: "pattern \<Rightarrow> string \<Rightarrow> (string list \<times> string) list" where
  "match_groups [] s = [([], s)]"
| "match_groups ((captured, its) # gs) s =
     concat (map (\<lambda>r. map (\<lambda>(groups, rest).
                    ((if captured then [take (length s - length r) s] else []) @ groups, rest))
                  (match_groups gs r))
                 (match_items its s))"

definition re_match :: "pattern \<Rightarrow> string \<Rightarrow> (string list \<times> string) option" where
  "re_match pat s = (case match_groups pat s of [] \<Rightarrow> None | m # _ \<Rightarrow> Some m)"

fun re_search :: "pattern \<Rightarrow> string \<Rightarrow> string list option" where
  "re_search pat [] = map_option fst (re_match pat [])"
| "re_search pat (c # cs) =
     (case re_match pat (c # cs) of Some m \<Rightarrow> Some (fst m) | None \<Rightarrow> re_search pat cs)"

function re_findall :: "pattern \<Rightarrow> string \<Rightarrow> string list list" where
  "re_findall pat [] = (case re_match pat [] of Some m \<Rightarrow> [fst m] | None \<Rightarrow> [])"
| "re_findall pat (c # cs) =
     (case re_match pat (c # cs) of
        None \<Rightarrow> re_findall pat cs
      | Some m \<Rightarrow>
          if length (snd m) < length (c # cs) then fst m # re_findall pat (snd m)
          else fst m # re_findall pat cs)"
  by pat_completeness auto
termination
  by (relation "measure (\<lambda>(pat, s). length s)") auto

definition float_items :: "item list" where
  "float_items = [Opt (Lit CHR ''-''), Plus Digit, One (Lit CHR ''.''), Plus Digit]"

definition marker_pattern :: pattern where
  "marker_pattern =
     [(False, [One (Lit CHR ''@'')]), (True, float_items),
      (False, [One (Lit CHR '','')]), (True, float_items)]"

definition float_pattern :: pattern where
  "float_pattern = [(True, float_items)]"

definition digit_val :: "char \<Rightarrow> nat" where
  "digit_val c = of_char c - 48"

definition digits_val :: "string \<Rightarrow> nat" where
  "digits_val ds = foldl (\<lambda>n c. 10 * n + digit_val c) 0 ds"

definition py_float :: "string \<Rightarrow> exn + real" where
  "py_float s =
     (let sgn = (case s of c # r \<Rightarrow> if c = CHR ''-'' then - 1 else 1 | [] \<Rightarrow> 1);
          u = (case s of c # r \<Rightarrow> if c = CHR ''-'' \<or> c = CHR ''+'' then r else s | [] \<Rightarrow> s);
          ip = takeWhile is_digit u;
          rest = dropWhile is_digit u
      in case rest of
           [] \<Rightarrow> if ip = [] then Inl ValueError else Inr (sgn * real (digits_val ip))
         | c # fp \<Rightarrow>
             if c = CHR ''.'' \<and> list_all is_digit fp \<and> (ip \<noteq> [] \<or> fp \<noteq> [])
             then Inr (sgn * (real (digits_val ip) + real (digits_val fp) / 10 ^ length fp))
             else Inl ValueError)"

definition index :: "'a list \<Rightarrow> nat \<Rightarrow> exn + 'a" where
  "index xs i = (if i < length xs then Inr (xs ! i) else Inl IndexError)"

definition coordinates_body :: "string \<Rightarrow> exn + (real option \<times> real option)" where
  "coordinates_body url =
     (case re_search marker_pattern url of
        Some m \<Rightarrow>
          bind_exn (index m 0) (\<lambda>g1. bind_exn (py_float g1) (\<lambda>lat.
          bind_exn (index m 1) (\<lambda>g2. bind_exn (py_float g2) (\<lambda>lon.
            Inr (Some lat, Some lon)))))
      | None \<Rightarrow>
          let floats = concat (re_findall float_pattern url)
          in if length floats \<ge> 2
             then bind_exn (index floats 0) (\<lambda>f0. bind_exn (py_float f0) (\<lambda>lat.
                  bind_exn (index floats 1) (\<lambda>f1. bind_exn (py_float f1) (\<lambda>lon.
                    Inr (Some lat, Some lon)))))
             else Inr (None, None))"

definition extract_coordinates_from_url :: "string \<Rightarrow> real option \<times> real option" where
  "extract_coordinates_from_url url =
     (case coordinates_body url of Inl e \<Rightarrow> (None, None) | Inr r \<Rightarrow> r)"


text \<open>
  The reference resolver, after the words of the specification: a float-looking token is an
  optional minus sign, digits, a point and digits, as long as possible; the marker is an
  \<open>@\<close>, a token, a comma and a token; the first marker from the left wins, else the first two
  tokens of a scan from the left, else nothing.
\<close>

definition unsigned_token :: "string \<Rightarrow> (string \<times> string) option" where
  "unsigned_token s =
     (let ip = takeWhile is_digit s; r1 = dropWhile is_digit s
      in case r1 of
           [] \<Rightarrow> None
         | c # r2 \<Rightarrow>
             if c = CHR ''.'' \<and> ip \<noteq> [] \<and> takeWhile is_digit r2 \<noteq> []
             then Some (ip @ CHR ''.'' # takeWhile is_digit r2, dropWhile is_digit r2)
             else None)"

definition float_token :: "string \<Rightarrow> (string \<times> string) option" where
  "float_token s =
     (case s of
        [] \<Rightarrow> None
      | c # r \<Rightarrow>
          if c = CHR ''-''
          then map_option (\<lambda>(t, rest). (CHR ''-'' # t, rest)) (unsigned_token r)
          else unsigned_token s)"

definition marker_at :: "string \<Rightarrow> (string \<times> string) option" where
  "marker_at s =
     (case s of
        [] \<Rightarrow> None
      | c # r0 \<Rightarrow>
          if c = CHR ''@''
          then (case float_token r0 of
                  None \<Rightarrow> None
                | Some (a, r1) \<Rightarrow>
                    (case r1 of
                       [] \<Rightarrow> None
                     | d # r2 \<Rightarrow>
                         if d = CHR '',''
                         then map_option (\<lambda>(b, rest). (a, b)) (float_token r2)
                         else None))
          else None)"

fun first_marker :: "string \<Rightarrow> (string \<times> string) option" where
  "first_marker [] = None"
| "first_marker (c # cs) =
     (case marker_at (c # cs) of Some m \<Rightarrow> Some m | None \<Rightarrow> first_marker cs)"

function float_tokens :: "string \<Rightarrow> string list" where
  "float_tokens [] = []"
| "float_tokens (c # cs) =
     (case float_token (c # cs) of
        None \<Rightarrow> float_tokens cs
      | Some (t, rest) \<Rightarrow> t # float_tokens rest)"
  by pat_completeness auto
termination
proof (relation "measure length")
  fix c cs x t rest
  assume "float_token (c # cs) = Some x" and "(t, rest) = x"
  then have tok: "float_token (c # cs) = Some (t, rest)"
    by simp
  have shorter: "length r < length s" if "unsigned_token s = Some (u, r)" for s u r
  proof -
    from that obtain r2 where "dropWhile is_digit s = CHR ''.'' # r2" "r = dropWhile is_digit r2"
      by (auto simp: unsigned_token_def Let_def split: list.splits if_splits)
    moreover have "length (dropWhile is_digit r2) \<le> length r2"
      by (rule length_dropWhile_le)
    moreover have "length (dropWhile is_digit s) \<le> length s"
      by (rule length_dropWhile_le)
    ultimately show ?thesis by simp
  qed
  have "length rest < length (c # cs)"
  proof (cases "c = CHR ''-''")
    case True
    with tok obtain u where "unsigned_token cs = Some (u, rest)"
      by (auto simp: float_token_def)
    then show ?thesis using shorter by fastforce
  next
    case False
    with tok have "unsigned_token (c # cs) = Some (t, rest)"
      by (simp add: float_token_def)
    then show ?thesis by (rule shorter)
  qed
  then show "(rest, c # cs) \<in> measure length"
    by simp
qed simp_all

definition unsigned_value :: "string \<Rightarrow> real" where
  "unsigned_value u =
     (let ip = takeWhile (\<lambda>c. c \<noteq> CHR ''.'') u;
          fp = drop 1 (dropWhile (\<lambda>c. c \<noteq> CHR ''.'') u)
      in real (digits_val ip) + real (digits_val fp) / 10 ^ length fp)"

definition decimal_value :: "string \<Rightarrow> real" where
  "decimal_value t =
     (case t of
        [] \<Rightarrow> 0
      | c # u \<Rightarrow> if c = CHR ''-'' then - unsigned_value u else unsigned_value t)"

definition resolve_reference :: "string \<Rightarrow> real option \<times> real option" where
  "resolve_reference url =
     (case first_marker url of
        Some (a, b) \<Rightarrow> (Some (decimal_value a), Some (decimal_value b))
      | None \<Rightarrow>
          (case float_tokens url of
             a # b # ts \<Rightarrow> (Some (decimal_value a), Some (decimal_value b))
           | _ \<Rightarrow> (None, None)))"

definition digit_led :: "string \<Rightarrow> bool" where
  "digit_led r = (case r of [] \<Rightarrow> False | c # cs \<Rightarrow> is_digit c)"

text \<open>A decimal token needs a digit, a point and a digit in a row.\<close>

fun has_decimal :: "string \<Rightarrow> bool" where
  "has_decimal (a # b # c # r) =
     ((is_digit a \<and> b = CHR ''.'' \<and> is_digit c) \<or> has_decimal (b # c # r))"
| "has_decimal r = False"

subsection \<open>Geometry: \<open>haversine_distance\<close>\<close>

text \<open>
  \<open>math.sqrt\<close> raises \<open>ValueError\<close> on a negative argument; \<open>math.atan2\<close> is defined for every
  pair of arguments. The two last statements of the function, which compute the angle from
  \<open>a\<close>, are \<open>haversine_c\<close>.
\<close>

definition radians :: "real \<Rightarrow> real" where
  "radians x = x * (pi / 180)"

definition py_sqrt :: "real \<Rightarrow> exn + real" where
  "py_sqrt x = (if x < 0 then Inl ValueError else Inr (sqrt x))"

definition atan2 :: "real \<Rightarrow> real \<Rightarrow> real" where
  "atan2 y x =
     (if 0 < x then arctan (y / x)
      else if x < 0 then (if 0 \<le> y then arctan (y / x) + pi else arctan (y / x) - pi)
      else if 0 < y then pi / 2
      else if y < 0 then - (pi / 2)
      else 0)"

definition haversine_a :: "real \<Rightarrow> real \<Rightarrow> real \<Rightarrow> real \<Rightarrow> real" where
  "haversine_a lat1 lon1 lat2 lon2 =
     (let phi1 = radians lat1; phi2 = radians lat2;
          dphi = radians (lat2 - lat1);
          dlambda = radians (lon2 - lon1)
      in (sin (dphi / 2))\<^sup>2 + cos phi1 * cos phi2 * (sin (dlambda / 2))\<^sup>2)"

definition haversine_c :: "real \<Rightarrow> exn + real" where
  "haversine_c a =
     bind_exn (py_sqrt a) (\<lambda>sa. bind_exn (py_sqrt (1 - a)) (\<lambda>sb. Inr (2 * atan2 sa sb)))"

definition haversine_distance :: "real \<Rightarrow> real \<Rightarrow> real \<Rightarrow> real \<Rightarrow> exn + real" where
  "haversine_distance lat1 lon1 lat2 lon2 =
     (let R = 6371000;
          a = haversine_a lat1 lon1 lat2 lon2
      in bind_exn (haversine_c a) (\<lambda>c. Inr (R * c)))"

subsection \<open>Row assembly: \<open>scrape_for_query\<close>\<close>

text \<open>
  A row is the list of its nine cells. A cell is a string, or a number under a fixed-point
  format: \<open>Fixed 6 x\<close> stands for the text of \<open>x\<close> with six decimals, \<open>Fixed 1 x\<close> with one. The
  truth value of a float is false for \<open>None\<close> and for zero. The page is the one the browser
  returns for the query; the screenshot, which changes no row, is left out.
\<close>

datatype cell = Str string | Fixed nat real

definition truthy_float :: "real option \<Rightarrow> bool" where
  "truthy_float v = (case v of None \<Rightarrow> False | Some x \<Rightarrow> x \<noteq> 0)"

definition make_row :: "string \<Rightarrow> real \<Rightarrow> real \<Rightarrow> candidate \<Rightarrow> exn + cell list" where
  "make_row query lat lon p =
     (let (plat, plon) = extract_coordinates_from_url (link p);
          (plat, plon) = (if plat = None \<or> plon = None then (Some lat, Some lon) else (plat, plon));
          dist_m = (if truthy_float plat \<and> truthy_float plon
                    then map_sum id Some (haversine_distance lat lon (the plat) (the plon))
                    else Inr None)
      in bind_exn dist_m (\<lambda>dist_m.
           Inr [Str (name p), Str (rating p), Str (reviews p),
                if truthy_float plat then Fixed 6 (the plat) else Str ''N/A'',
                if truthy_float plon then Fixed 6 (the plon) else Str ''N/A'',
                Str query, Fixed 6 lat, Fixed 6 lon,
                case dist_m of Some d \<Rightarrow> Fixed 1 d | None \<Rightarrow> Str []]))"

fun rows_loop :: "string \<Rightarrow> real \<Rightarrow> real \<Rightarrow> candidate list \<Rightarrow> exn + cell list list" where
  "rows_loop query lat lon [] = Inr []"
| "rows_loop query lat lon (p # pois) =
     bind_exn (make_row query lat lon p) (\<lambda>row.
     bind_exn (rows_loop query lat lon pois) (\<lambda>rows. Inr (row # rows)))"

definition scrape_for_query :: "node \<Rightarrow> string \<Rightarrow> real \<Rightarrow> real \<Rightarrow> int \<Rightarrow> exn + cell list list" where
  "scrape_for_query page query lat lon max_results =
     bind_exn (parse_left_panel_pois page max_results) (rows_loop query lat lon)"

text \<open>Two candidates: a place on the equator with its marker, and a place without link.\<close>

definition poi_equator :: candidate where
  "poi_equator = \<lparr>name = ''Quay'', link = ''/maps/place/Quay/@0.0,5.5,15z'',
                    rating = ''4.5'', reviews = ''120''\<rparr>"

definition poi_nolink :: candidate where
  "poi_nolink = \<lparr>name = ''Hall Two'', link = [], rating = [], reviews = []\<rparr>"

text \<open>Two pages of one card each: the card of the first links to the place on the equator,
  the card of the second has a label and no link.\<close>

definition card_quay :: node where
  "card_quay = Tag ''div'' [(''class'', ''Nv2PK''), (''aria-label'', ''Quay'')]
     [Tag ''a'' [(''href'', ''/maps/place/Quay/@0.0,5.5,15z'')] [],
      Tag ''span'' [(''class'', ''MW4etd'')] [NavigableString ''4.5''],
      Tag ''span'' [(''class'', ''UY7F9'')] [NavigableString ''(120)'']]"

definition page_quay :: node where
  "page_quay = Tag ''[document]'' [] [card_quay]"

definition page_hall :: node where
  "page_hall = Tag ''[document]'' [] [card_hall]"

subsection \<open>Grid traversal: the two loops of \<open>run_scraper\<close>\<close>

text \<open>
  The configuration is a record of the six constants the loops read. Of the body of the
  inner loop the model keeps the cell it announces, \<open>(row, col, lat, lon)\<close>, appended to the
  list of the cells visited so far. A loop that does not end has no result: \<open>None\<close>.
\<close>

record config =
  START_LAT :: real
  START_LON :: real
  END_LAT :: real
  END_LON :: real
  STEP_LAT :: real
  STEP_LON :: real


definition eps :: real where
  "eps = 1 / 10 ^ 12"




text \<open>
  How many values \<open>x\<close>, \<open>x + step\<close>, \<open>x + 2 * step\<close>, ... are at most \<open>bound\<close>; the cells of
  one row and of \<open>n\<close> rows, in the order of the loops; three configurations: the one of
  \<open>config.py\<close>, one whose end latitude is just below a grid line, one with a zero step.
\<close>

definition steps :: "real \<Rightarrow> real \<Rightarrow> real \<Rightarrow> nat" where
  "steps x bound step = (if x \<le> bound then nat \<lfloor>(bound - x) / step\<rfloor> + 1 else 0)"



definition config0 :: config where
  "config0 = \<lparr>START_LAT = 38.836359, START_LON = - 77.048358, END_LAT = 38.974690,
              END_LON = - 77.013404, STEP_LAT = 0.02, STEP_LON = 0.02\<rparr>"



section \<open>Properties\<close>

subsection \<open>Properties of \<open>write_rows_to_csv\<close>\<close>

lemma foldl_writerow: "foldl writerow f rows = f @ rows"
  by (induction rows arbitrary: f) (simp_all add: writerow_def)

lemma write_new_sink_with_header:
  assumes "dirname path \<noteq> []" and "fs path = None" and "h \<noteq> []"
  shows "write_rows_to_csv fs path rows (Some h) = Inr (fs(path \<mapsto> h # rows))"
  using assms
  by (simp add: write_rows_to_csv_def truthy_header_def foldl_writerow writerow_def)

lemma write_new_sink_without_header:
  assumes "dirname path \<noteq> []" and "fs path = None"
  shows "write_rows_to_csv fs path rows None = Inr (fs(path \<mapsto> rows))"
  using assms
  by (simp add: write_rows_to_csv_def truthy_header_def foldl_writerow)

lemma write_existing_sink_appends:
  assumes "dirname path \<noteq> []" and "fs path = Some old"
  shows "write_rows_to_csv fs path rows header = Inr (fs(path \<mapsto> old @ rows))"
  using assms
  by (simp add: write_rows_to_csv_def foldl_writerow)

lemma write_twice_one_header:
  assumes "dirname path \<noteq> []" and "fs path = None" and "h \<noteq> []"
    and "write_rows_to_csv fs path rows (Some h) = Inr fs1"
    and "write_rows_to_csv fs1 path rows' (Some h) = Inr fs2"
  shows "fs2 path = Some (h # rows @ rows')"
proof -
  have "write_rows_to_csv fs path rows (Some h) = Inr (fs(path \<mapsto> h # rows))"
    using assms(1-3) by (rule write_new_sink_with_header)
  with assms(4) have "fs1 = fs(path \<mapsto> h # rows)"
    by simp
  then have old: "fs1 path = Some (h # rows)"
    by simp
  have "write_rows_to_csv fs1 path rows' (Some h) = Inr (fs1(path \<mapsto> (h # rows) @ rows'))"
    using assms(1) old by (rule write_existing_sink_appends)
  with assms(5) show ?thesis
    by auto
qed

lemma write_other_sinks_untouched:
  assumes "write_rows_to_csv fs path rows header = Inr fs'" and "q \<noteq> path"
  shows "fs' q = fs q"
  using assms
  by (auto simp: write_rows_to_csv_def Let_def split: if_splits)

text \<open>
  Claim C5. Appending to a sink that does not exist yet should create it with the header row
  followed by the given rows. For a sink path without a directory part the parent directory
  to create is the empty path, and the call raises instead of creating the sink.
\<close>

theorem write_rows_bare_filename_raises:
  "write_rows_to_csv (Map.empty :: string fs) ''dataset.csv'' [[''a'', ''b'']] (Some [''Name'', ''Rating''])
     = Inl FileNotFoundError"
  by (simp add: write_rows_to_csv_def dirname_def)

subsection \<open>Properties of \<open>parse_left_panel_pois\<close>\<close>

lemma card_loop_saturated:
  "max_results \<le> int (length candidates) \<Longrightarrow> card_loop max_results cards candidates = candidates"
  by (cases cards) simp_all

lemma card_loop_length:
  "length (card_loop max_results cards candidates) \<le> max (length candidates) (nat max_results)"
proof (induction cards arbitrary: candidates)
  case Nil
  show ?case by simp
next
  case (Cons crd cards)
  show ?case
  proof (cases "max_results \<le> int (length candidates)")
    case True
    then show ?thesis by simp
  next
    case False
    then have room: "length (candidates @ [c]) \<le> nat max_results" for c
      by simp
    have "length (card_loop max_results cards (candidates @ [c])) \<le> nat max_results" for c
      using Cons.IH [of "candidates @ [c]"] room [of c] by simp
    moreover have "length (card_loop max_results cards candidates)
        \<le> max (length candidates) (nat max_results)"
      by (rule Cons.IH)
    ultimately show ?thesis
      using False by (simp split: sum.split option.split)
  qed
qed

lemma card_loop_prefix:
  "max_results \<le> int (length (card_loop max_results pre candidates)) \<Longrightarrow>
   card_loop max_results (pre @ post) candidates = card_loop max_results pre candidates"
proof (induction pre arbitrary: candidates)
  case Nil
  then show ?case by (simp add: card_loop_saturated)
next
  case (Cons crd pre)
  then show ?case
    by (cases "max_results \<le> int (length candidates)")
       (auto split: sum.splits option.splits)
qed

lemma card_loop_skips_failure:
  "extract_card crd = Inl e \<Longrightarrow>
   card_loop max_results (pre @ crd # post) candidates = card_loop max_results (pre @ post) candidates"
proof (induction pre arbitrary: candidates)
  case Nil
  then show ?case by (simp add: card_loop_saturated)
next
  case (Cons p pre)
  then show ?case
    by (cases "max_results \<le> int (length candidates)")
       (auto split: sum.splits option.splits)
qed

lemma card_loop_skips_discarded:
  "extract_card crd = Inr None \<Longrightarrow>
   card_loop max_results (pre @ crd # post) candidates = card_loop max_results (pre @ post) candidates"
proof (induction pre arbitrary: candidates)
  case Nil
  then show ?case by (simp add: card_loop_saturated)
next
  case (Cons p pre)
  then show ?case
    by (cases "max_results \<le> int (length candidates)")
       (auto split: sum.splits option.splits)
qed

lemma extract_card_name_nonempty:
  "extract_card crd = Inr (Some c) \<Longrightarrow> name c \<noteq> []"
  by (cases crd)
     (auto simp: bind_exn_def Let_def truthy_def split: sum.splits option.splits if_splits)

lemma card_loop_names:
  "list_all (\<lambda>c. name c \<noteq> []) candidates \<Longrightarrow>
   list_all (\<lambda>c. name c \<noteq> []) (card_loop max_results cards candidates)"
proof (induction cards arbitrary: candidates)
  case Nil
  then show ?case by simp
next
  case (Cons crd cards)
  then show ?case
    by (auto split: sum.splits option.splits dest: extract_card_name_nonempty)
qed

lemma find_all_sat: "d \<in> set (find_all t nm p) \<Longrightarrow> tag_named nm d \<and> p d"
  by (simp add: find_all_def)

lemma find_first_sat: "find_first t nm p = Some d \<Longrightarrow> tag_named nm d \<and> p d"
  using find_all_sat [of d t nm p]
  by (auto simp: find_first_def split: list.splits)

lemma getitem_has_attr: "has_attr k d \<Longrightarrow> \<exists>v. getitem d k = Inr v"
  by (cases d) (auto simp: has_attr_def)

lemma getitem_truthy: "truthy (get_attr d k) \<Longrightarrow> \<exists>v. getitem d k = Inr v"
  by (cases d) (auto simp: truthy_def split: option.splits)

lemma place_links_total:
  "list_all (has_attr ''href'') as \<Longrightarrow> \<exists>r. place_links as = Inr r"
proof (induction as)
  case Nil
  show ?case by simp
next
  case (Cons a as)
  then obtain v r where "getitem a ''href'' = Inr v" "place_links as = Inr r"
    using getitem_has_attr [of "''href''" a] by auto
  then show ?case
    by (simp add: bind_exn_def)
qed

lemma select_cards_total: "\<exists>cards. select_cards soup = Inr cards"
proof -
  have "list_all (has_attr ''href'') (find_all soup ''a'' (has_attr ''href''))"
    by (simp add: find_all_def list_all_iff)
  then show ?thesis
    using place_links_total by (simp add: select_cards_def Let_def)
qed

lemma card_link_total: "\<exists>l. card_link (Tag n a cs) = Inr l"
proof (cases "tag_named ''a'' (Tag n a cs) \<and> truthy (get_attr (Tag n a cs) ''href'')")
  case True
  then show ?thesis
    using getitem_truthy [of "Tag n a cs" "''href''"] by (simp add: card_link_def)
next
  case False
  show ?thesis
  proof (cases "find_first (Tag n a cs) ''a'' (has_attr ''href'')")
    case None
    with False show ?thesis by (auto simp: card_link_def)
  next
    case (Some link_tag)
    then have "has_attr ''href'' link_tag"
      using find_first_sat by blast
    then obtain v where "getitem link_tag ''href'' = Inr v"
      using getitem_has_attr by blast
    with False Some show ?thesis by (auto simp: card_link_def)
  qed
qed

lemma card_name_total: "\<exists>nm. card_name (Tag n a cs) = Inr nm"
  using getitem_truthy [of "Tag n a cs" "''aria-label''"]
  by (auto simp: card_name_def bind_exn_def Let_def)

lemma extract_card_total: "\<exists>r. extract_card (Tag n a cs) = Inr r"
proof -
  obtain l nm where "card_link (Tag n a cs) = Inr l" "card_name (Tag n a cs) = Inr nm"
    using card_link_total card_name_total by blast
  then show ?thesis
    by (simp add: bind_exn_def Let_def)
qed


lemma parse_left_panel_pois_eq:
  "\<exists>cards. select_cards soup = Inr cards \<and>
     parse_left_panel_pois soup max_results = Inr (card_loop max_results cards [])"
  using select_cards_total [of soup]
  by (auto simp: parse_left_panel_pois_def bind_exn_def)

lemma unnamed_card_yields_nothing:
  assumes "card_name crd = Inr nm" and "\<not> truthy nm"
  shows "extract_card crd = Inr None \<or> (\<exists>e. extract_card crd = Inl e)"
proof (cases crd)
  case (NavigableString s)
  then show ?thesis by simp
next
  case (Tag n a cs)
  with assms show ?thesis
    by (cases "card_link (Tag n a cs)") (simp_all add: bind_exn_def)
qed

text \<open>
  Claim C6. For every page and every cap, \<open>parse_left_panel_pois\<close> returns a list of at most
  \<open>max_results\<close> candidates (none when the cap is not positive), and once the cap is reached
  within a prefix of the cards the result is that of the prefix alone, whatever cards follow:
  the loop does not look at them.
\<close>

theorem parse_left_panel_pois_capped:
  "(\<exists>r. parse_left_panel_pois soup max_results = Inr r \<and> length r \<le> nat max_results) \<and>
   (max_results \<le> int (length (card_loop max_results pre [])) \<longrightarrow>
      card_loop max_results (pre @ post) [] = card_loop max_results pre [])"
proof
  obtain cards where "parse_left_panel_pois soup max_results = Inr (card_loop max_results cards [])"
    using parse_left_panel_pois_eq by blast
  moreover have "length (card_loop max_results cards []) \<le> nat max_results"
    using card_loop_length [of max_results cards "[]"] by simp
  ultimately show "\<exists>r. parse_left_panel_pois soup max_results = Inr r \<and> length r \<le> nat max_results"
    by blast
next
  show "max_results \<le> int (length (card_loop max_results pre [])) \<longrightarrow>
      card_loop max_results (pre @ post) [] = card_loop max_results pre []"
    by (simp add: card_loop_prefix)
qed

lemma extract_card_arena:
  "extract_card card_arena = Inr (Some \<lparr>name = ''4.5(120)'',
     link = ''/maps/place/A/@38.9,-77.03,15z'', rating = ''4.5'', reviews = ''120''\<rparr>)"
  by (simp add: card_arena_def bind_exn_def card_link_def card_name_def card_rating_def
      card_reviews_def find_first_def find_all_def has_attr_def has_class_def truthy_def
      or_else_def get_text_strip_def strip_chars_def is_space_def)

lemma extract_card_blank: "extract_card card_blank = Inr None"
  by (simp add: card_blank_def bind_exn_def card_link_def card_name_def card_rating_def
      card_reviews_def find_first_def find_all_def has_attr_def has_class_def truthy_def
      or_else_def get_text_strip_def strip_chars_def is_space_def)

lemma extract_card_hall:
  "extract_card card_hall = Inr (Some \<lparr>name = ''Hall Two'', link = [], rating = [], reviews = []\<rparr>)"
  by (simp add: card_hall_def bind_exn_def card_link_def card_name_def card_rating_def
      card_reviews_def find_first_def find_all_def has_attr_def has_class_def truthy_def
      or_else_def get_text_strip_def strip_chars_def is_space_def)

lemma card_name_blank: "card_name card_blank = Inr (Some [])"
  by (simp add: card_blank_def bind_exn_def card_name_def find_first_def find_all_def
      has_class_def truthy_def or_else_def get_text_strip_def strip_chars_def is_space_def)

theorem parse_left_panel_pois_capped_witness:
  "(\<exists>r. parse_left_panel_pois panel 2 = Inr r \<and> length r \<le> nat 2) \<and>
   (2::int) \<le> int (length (card_loop 2 [card_arena, card_blank, card_hall] [])) \<and>
   card_loop 2 ([card_arena, card_blank, card_hall] @ [card_stadium, NavigableString ''x'']) []
     = card_loop 2 [card_arena, card_blank, card_hall] []"
  using parse_left_panel_pois_capped
    [of panel 2 "[card_arena, card_blank, card_hall]" "[card_stadium, NavigableString ''x'']"]
  by (simp add: extract_card_arena extract_card_blank extract_card_hall)

text \<open>
  Claim C8. Every candidate that \<open>parse_left_panel_pois\<close> returns has a non-empty name, and a
  card whose name is still empty after the last tier (the label of the card, the heading
  element, the truncated visible text) adds nothing to the output: the result is the one
  obtained without that card.
\<close>

theorem parse_left_panel_pois_names_nonempty:
  "(\<exists>r. parse_left_panel_pois soup max_results = Inr r \<and> list_all (\<lambda>c. name c \<noteq> []) r) \<and>
   (card_name crd = Inr nm \<and> \<not> truthy nm \<longrightarrow>
      card_loop max_results (pre @ crd # post) candidates
        = card_loop max_results (pre @ post) candidates)"
proof
  obtain cards where "parse_left_panel_pois soup max_results = Inr (card_loop max_results cards [])"
    using parse_left_panel_pois_eq by blast
  moreover have "list_all (\<lambda>c. name c \<noteq> []) (card_loop max_results cards [])"
    by (rule card_loop_names) simp
  ultimately show "\<exists>r. parse_left_panel_pois soup max_results = Inr r \<and> list_all (\<lambda>c. name c \<noteq> []) r"
    by blast
next
  show "card_name crd = Inr nm \<and> \<not> truthy nm \<longrightarrow>
      card_loop max_results (pre @ crd # post) candidates
        = card_loop max_results (pre @ post) candidates"
    using unnamed_card_yields_nothing [of crd nm]
      card_loop_skips_discarded [of crd max_results pre post candidates]
      card_loop_skips_failure [of crd _ max_results pre post candidates]
    by blast
qed

theorem parse_left_panel_pois_names_nonempty_witness:
  "(\<exists>r. parse_left_panel_pois panel 10 = Inr r \<and> list_all (\<lambda>c. name c \<noteq> []) r) \<and>
   card_name card_blank = Inr (Some []) \<and> \<not> truthy (Some []) \<and>
   card_loop 10 ([card_arena] @ card_blank # [card_hall]) []
     = card_loop 10 ([card_arena] @ [card_hall]) []"
  using parse_left_panel_pois_names_nonempty
    [of panel 10 card_blank "Some []" "[card_arena]" "[card_hall]" "[]"]
  by (simp add: card_name_blank truthy_def)

lemma card_loop_take:
  "card_loop max_results cards candidates =
     (if max_results \<le> int (length candidates) then candidates
      else candidates
           @ take (nat max_results - length candidates) (concat (map card_output cards)))"
proof (induction cards arbitrary: candidates)
  case Nil
  show ?case by simp
next
  case (Cons crd cards)
  show ?case
  proof (cases "max_results \<le> int (length candidates)")
    case True
    then show ?thesis by simp
  next
    case False
    then have room: "0 < nat max_results - length candidates"
      by simp
    show ?thesis
    proof (cases "extract_card crd")
      case (Inl e)
      then have "card_output crd = []"
        by (simp add: card_output_def)
      with Inl False Cons.IH [of candidates] show ?thesis
        by simp
    next
      case (Inr r)
      show ?thesis
      proof (cases r)
        case None
        with Inr have "card_output crd = []"
          by (simp add: card_output_def)
        with None Inr False Cons.IH [of candidates] show ?thesis
          by simp
      next
        case (Some c)
        with Inr have out: "card_output crd = [c]"
          by (simp add: card_output_def)
        have "take (nat max_results - length candidates) (c # concat (map card_output cards))
            = c # take (nat max_results - length candidates - 1) (concat (map card_output cards))"
          using room by (cases "nat max_results - length candidates") simp_all
        with out Some Inr False Cons.IH [of "candidates @ [c]"] show ?thesis
          by simp
      qed
    qed
  qed
qed

lemma card_output_arena:
  "card_output card_arena = [\<lparr>name = ''4.5(120)'',
     link = ''/maps/place/A/@38.9,-77.03,15z'', rating = ''4.5'', reviews = ''120''\<rparr>]"
  by (simp add: card_output_def extract_card_arena)

lemma card_output_blank: "card_output card_blank = []"
  by (simp add: card_output_def extract_card_blank)

lemma card_output_hall:
  "card_output card_hall = [\<lparr>name = ''Hall Two'', link = [], rating = [], reviews = []\<rparr>]"
  by (simp add: card_output_def extract_card_hall)

lemma card_output_stadium:
  "card_output card_stadium
     = [\<lparr>name = ''Stadium Three'', link = [], rating = [], reviews = []\<rparr>]"
  by (simp add: card_output_def card_stadium_def bind_exn_def card_link_def card_name_def
      card_rating_def card_reviews_def find_first_def find_all_def has_attr_def has_class_def
      truthy_def or_else_def get_text_strip_def strip_chars_def is_space_def)

lemma select_cards_panel:
  "select_cards panel = Inr [card_arena, card_blank, card_hall, card_stadium]"
  by (simp add: select_cards_def find_all_def panel_def has_class_def is_space_def
      card_arena_def card_blank_def card_hall_def card_stadium_def)

lemma page_cards_never_raise:
  assumes "select_cards soup = Inr cards" and "crd \<in> set cards"
  shows "\<exists>r. extract_card crd = Inr r"
proof -
  have "\<exists>n a cs. crd = Tag n a cs"
  proof (cases "find_all soup ''div'' (has_class ''Nv2PK'') = []")
    case False
    with assms have "crd \<in> set (find_all soup ''div'' (has_class ''Nv2PK''))"
      by (simp add: select_cards_def)
    then have "tag_named ''div'' crd"
      using find_all_sat by blast
    then show ?thesis by (cases crd) simp_all
  next
    case True
    have sub: "place_links as = Inr r \<Longrightarrow> set r \<subseteq> set as" for as r
    proof (induction as arbitrary: r)
      case Nil
      then show ?case by simp
    next
      case (Cons a as)
      then show ?case
        by (auto simp: bind_exn_def split: sum.splits if_splits)
    qed
    from True assms have "place_links (find_all soup ''a'' (has_attr ''href'')) = Inr cards"
      by (simp add: select_cards_def)
    with sub assms(2) have "crd \<in> set (find_all soup ''a'' (has_attr ''href''))"
      by blast
    then have "tag_named ''a'' crd"
      using find_all_sat by blast
    then show ?thesis by (cases crd) simp_all
  qed
  then show ?thesis
    using extract_card_total by blast
qed

text \<open>
  Claim C9. The loop handles each card on its own. Whatever the list of cards, the result is
  made of what every card yields by itself, in order, cut at the cap: a card whose extraction
  raises yields nothing, as a card without a name does, and every other card before or after
  it still yields its candidate. And \<open>parse_left_panel_pois\<close> returns such a list for every
  page: no exception leaves it. (On the cards of a page the extraction does not raise at all,
  \<open>page_cards_never_raise\<close>: the handler is there for what the parser should not produce.)
\<close>

theorem card_failure_skips_only_that_card:
  "card_loop max_results cards [] = take (nat max_results) (concat (map card_output cards)) \<and>
   (\<exists>cs. select_cards soup = Inr cs \<and>
      parse_left_panel_pois soup max_results
        = Inr (take (nat max_results) (concat (map card_output cs))))"
proof
  show loop: "card_loop max_results cards [] = take (nat max_results) (concat (map card_output cards))"
    for cards
    by (simp add: card_loop_take)
  obtain cs where "select_cards soup = Inr cs"
      "parse_left_panel_pois soup max_results = Inr (card_loop max_results cs [])"
    using parse_left_panel_pois_eq by blast
  then show "\<exists>cs. select_cards soup = Inr cs \<and>
      parse_left_panel_pois soup max_results
        = Inr (take (nat max_results) (concat (map card_output cs)))"
    using loop by simp
qed

theorem card_failure_skips_only_that_card_witness:
  "select_cards panel = Inr [card_arena, card_blank, card_hall, card_stadium] \<and>
   parse_left_panel_pois panel 10
     = Inr [\<lparr>name = ''4.5(120)'', link = ''/maps/place/A/@38.9,-77.03,15z'', rating = ''4.5'',
              reviews = ''120''\<rparr>,
            \<lparr>name = ''Hall Two'', link = [], rating = [], reviews = []\<rparr>,
            \<lparr>name = ''Stadium Three'', link = [], rating = [], reviews = []\<rparr>]"
  using card_failure_skips_only_that_card [of 10 "[]" panel]
  by (simp add: select_cards_panel card_output_arena card_output_blank card_output_hall
      card_output_stadium)

text \<open>The same loop on a list with an element whose extraction raises: the element is
  skipped and the cards after it are processed.\<close>

lemma card_loop_after_raising_element:
  "extract_card (NavigableString ''x'') = Inl AttributeError \<and>
   card_loop 10 [card_arena, NavigableString ''x'', card_hall, card_stadium] []
     = [\<lparr>name = ''4.5(120)'', link = ''/maps/place/A/@38.9,-77.03,15z'', rating = ''4.5'',
          reviews = ''120''\<rparr>,
        \<lparr>name = ''Hall Two'', link = [], rating = [], reviews = []\<rparr>,
        \<lparr>name = ''Stadium Three'', link = [], rating = [], reviews = []\<rparr>]"
  by (simp add: card_loop_take card_output_arena card_output_hall card_output_stadium)
     (simp add: card_output_def)

subsection \<open>Properties of \<open>extract_coordinates_from_url\<close>\<close>

lemma rev_upt_from_1: "0 < k \<Longrightarrow> rev [1 ..< Suc k] = k # rev [1 ..< k]"
  by simp

lemma concat_map_only_first:
  assumes "\<And>n. n \<in> set ns \<Longrightarrow> f n = []"
  shows "concat (map f (k # ns)) = f k"
  using assms by (induction ns) auto

lemma drop_takeWhile_digit:
  "n < length (takeWhile p s) \<Longrightarrow> \<exists>c r. drop n s = c # r \<and> p c"
proof (induction s arbitrary: n)
  case Nil
  then show ?case by simp
next
  case (Cons a s)
  show ?case
  proof (cases "p a")
    case False
    with Cons.prems show ?thesis by simp
  next
    case True
    show ?thesis
    proof (cases n)
      case 0
      with True show ?thesis by simp
    next
      case (Suc m)
      with Cons.prems True have "m < length (takeWhile p s)" by simp
      from Cons.IH [OF this] Suc show ?thesis by simp
    qed
  qed
qed

lemma drop_length_takeWhile: "drop (length (takeWhile p s)) s = dropWhile p s"
  by (induction s) auto

lemma atom_ok_Digit: "atom_ok Digit = is_digit"
  by (rule ext) simp

lemma match_plus_digit_unfold:
  "match_items (Plus Digit # its) s =
     concat (map (\<lambda>n. match_items its (drop n s)) (rev [1 ..< Suc (length (takeWhile is_digit s))]))"
  by (simp add: atom_ok_Digit)

lemma match_plus_digit_then:
  assumes "\<And>c r. is_digit c \<Longrightarrow> match_items its (c # r) = []"
  shows "match_items (Plus Digit # its) s =
           (if takeWhile is_digit s = [] then [] else match_items its (dropWhile is_digit s))"
proof (cases "takeWhile is_digit s = []")
  case True
  then show ?thesis by (simp add: atom_ok_Digit)
next
  case False
  define k where "k = length (takeWhile is_digit s)"
  have k: "0 < k" using False by (simp add: k_def)
  have "match_items its (drop n s) = []" if "n \<in> set (rev [1 ..< k])" for n
  proof -
    from that have "n < length (takeWhile is_digit s)" by (simp add: k_def)
    then obtain c r where "drop n s = c # r" "is_digit c"
      using drop_takeWhile_digit by blast
    then show ?thesis using assms by simp
  qed
  then have "concat (map (\<lambda>n. match_items its (drop n s)) (k # rev [1 ..< k]))
      = match_items its (drop k s)"
    by (rule concat_map_only_first)
  then have "match_items (Plus Digit # its) s = match_items its (drop k s)"
    unfolding match_plus_digit_unfold k_def [symmetric] rev_upt_from_1 [OF k] .
  then show ?thesis
    using False by (simp add: k_def drop_length_takeWhile)
qed

lemma match_plus_digit_last:
  "match_items [Plus Digit] s =
     map (\<lambda>n. drop n s) (rev [1 ..< Suc (length (takeWhile is_digit s))])"
  by (simp add: atom_ok_Digit)


lemma not_digit_chars [simp]:
  "\<not> is_digit CHR ''.''" "\<not> is_digit CHR ''-''" "\<not> is_digit CHR '',''" "\<not> is_digit CHR ''@''"
  by (simp_all add: is_digit_def)

lemma digit_neq [simp]:
  "is_digit c \<Longrightarrow> c \<noteq> CHR ''.''" "is_digit c \<Longrightarrow> c \<noteq> CHR ''-''"
  "is_digit c \<Longrightarrow> c \<noteq> CHR '',''" "is_digit c \<Longrightarrow> c \<noteq> CHR ''@''"
  by auto

lemma remainders_digit_run:
  assumes "takeWhile is_digit r \<noteq> []"
  shows "\<exists>others. map (\<lambda>n. drop n r) (rev [1 ..< Suc (length (takeWhile is_digit r))])
             = dropWhile is_digit r # others \<and> list_all digit_led others"
proof -
  define k where "k = length (takeWhile is_digit r)"
  have k: "0 < k" using assms by (simp add: k_def)
  have "digit_led (drop n r)" if "n < k" for n
    using drop_takeWhile_digit [of n is_digit r] that by (auto simp: k_def digit_led_def)
  then have "list_all digit_led (map (\<lambda>n. drop n r) (rev [1 ..< k]))"
    by (simp add: list_all_iff)
  moreover have "map (\<lambda>n. drop n r) (rev [1 ..< Suc k])
      = dropWhile is_digit r # map (\<lambda>n. drop n r) (rev [1 ..< k])"
    unfolding rev_upt_from_1 [OF k] by (simp add: k_def drop_length_takeWhile)
  ultimately have "\<exists>others. map (\<lambda>n. drop n r) (rev [1 ..< Suc k])
             = dropWhile is_digit r # others \<and> list_all digit_led others"
    by (intro exI conjI)
  then show ?thesis
    by (simp only: k_def)
qed

lemma match_dot_digits:
  "match_items [One (Lit CHR ''.''), Plus Digit] s =
     (case s of [] \<Rightarrow> []
      | c # r \<Rightarrow> if c = CHR ''.''
                 then map (\<lambda>n. drop n r) (rev [1 ..< Suc (length (takeWhile is_digit r))])
                 else [])"
  by (simp add: atom_ok_Digit split: list.split)

lemma match_unsigned_items:
  "match_items [Plus Digit, One (Lit CHR ''.''), Plus Digit] s =
     (if takeWhile is_digit s = [] then []
      else match_items [One (Lit CHR ''.''), Plus Digit] (dropWhile is_digit s))"
  by (rule match_plus_digit_then) simp

declare match_items.simps [simp del] match_groups.simps [simp del]

lemma unsigned_token_SomeD:
  assumes "unsigned_token s = Some (t, rest)"
  obtains r2 where "dropWhile is_digit s = CHR ''.'' # r2"
    and "takeWhile is_digit s \<noteq> []" and "takeWhile is_digit r2 \<noteq> []"
    and "t = takeWhile is_digit s @ CHR ''.'' # takeWhile is_digit r2"
    and "rest = dropWhile is_digit r2"
proof (cases "dropWhile is_digit s")
  case Nil
  with assms show ?thesis
    unfolding unsigned_token_def Let_def by simp
next
  case (Cons c r2)
  with assms have "c = CHR ''.'' \<and> takeWhile is_digit s \<noteq> [] \<and> takeWhile is_digit r2 \<noteq> []
      \<and> t = takeWhile is_digit s @ CHR ''.'' # takeWhile is_digit r2 \<and> rest = dropWhile is_digit r2"
    unfolding unsigned_token_def Let_def by (simp split: if_splits)
  with Cons that show ?thesis by blast
qed

lemma unsigned_token_NoneD:
  assumes "unsigned_token s = None"
  shows "takeWhile is_digit s = [] \<or> dropWhile is_digit s = []
     \<or> (\<exists>c r2. dropWhile is_digit s = c # r2 \<and> (c \<noteq> CHR ''.'' \<or> takeWhile is_digit r2 = []))"
proof (cases "dropWhile is_digit s")
  case Nil
  then show ?thesis by simp
next
  case (Cons c r2)
  with assms show ?thesis
    unfolding unsigned_token_def Let_def by (simp split: if_splits)
qed

lemma match_unsigned_None:
  assumes "unsigned_token s = None"
  shows "match_items [Plus Digit, One (Lit CHR ''.''), Plus Digit] s = []"
proof (cases "takeWhile is_digit s = []")
  case True
  then show ?thesis by (simp add: match_unsigned_items)
next
  case False
  show ?thesis
  proof (cases "dropWhile is_digit s")
    case Nil
    have "match_items [One (Lit CHR ''.''), Plus Digit] (dropWhile is_digit s) = []"
      unfolding Nil match_dot_digits by simp
    with False show ?thesis
      by (simp add: match_unsigned_items)
  next
    case (Cons c r2)
    with unsigned_token_NoneD [OF assms] False
    have "c \<noteq> CHR ''.'' \<or> takeWhile is_digit r2 = []"
      by simp
    with False Cons show ?thesis
      by (auto simp: match_unsigned_items match_dot_digits)
  qed
qed

lemma match_unsigned_Some:
  assumes "unsigned_token s = Some (t, rest)"
  shows "\<exists>others. match_items [Plus Digit, One (Lit CHR ''.''), Plus Digit] s = rest # others
           \<and> list_all digit_led others"
proof -
  from assms obtain r2 where r2: "dropWhile is_digit s = CHR ''.'' # r2"
      "takeWhile is_digit s \<noteq> []" "takeWhile is_digit r2 \<noteq> []" "rest = dropWhile is_digit r2"
    by (rule unsigned_token_SomeD)
  from remainders_digit_run [OF r2(3)] r2 show ?thesis
    unfolding match_unsigned_items match_dot_digits by simp
qed

lemma unsigned_token_append:
  assumes "unsigned_token s = Some (t, rest)"
  shows "s = t @ rest"
proof -
  from assms obtain r2 where r2: "dropWhile is_digit s = CHR ''.'' # r2"
      "t = takeWhile is_digit s @ CHR ''.'' # takeWhile is_digit r2" "rest = dropWhile is_digit r2"
    by (rule unsigned_token_SomeD)
  have "s = takeWhile is_digit s @ dropWhile is_digit s" by simp
  also have "\<dots> = takeWhile is_digit s @ CHR ''.'' # (takeWhile is_digit r2 @ dropWhile is_digit r2)"
    by (simp add: r2(1))
  finally show ?thesis by (simp add: r2)
qed

lemma match_float_items:
  "match_items float_items s =
     (case s of [] \<Rightarrow> []
      | c # r \<Rightarrow> if c = CHR ''-''
                 then match_items [Plus Digit, One (Lit CHR ''.''), Plus Digit] r
                 else match_items [Plus Digit, One (Lit CHR ''.''), Plus Digit] s)"
proof (cases s)
  case Nil
  then show ?thesis by (simp add: float_items_def match_items.simps)
next
  case (Cons c r)
  have "match_items [Plus Digit, One (Lit CHR ''.''), Plus Digit] (CHR ''-'' # r) = []"
    unfolding match_unsigned_items by simp
  then show ?thesis
    using Cons unfolding float_items_def match_items.simps(3) by simp
qed

lemma match_float_None:
  assumes "float_token s = None"
  shows "match_items float_items s = []"
proof (cases s)
  case Nil
  then show ?thesis by (simp add: match_float_items)
next
  case (Cons c r)
  show ?thesis
  proof (cases "c = CHR ''-''")
    case True
    with assms Cons have "unsigned_token r = None"
      by (simp add: float_token_def)
    then show ?thesis
      using True Cons by (simp add: match_float_items match_unsigned_None)
  next
    case False
    with assms Cons have "unsigned_token s = None"
      by (simp add: float_token_def)
    then show ?thesis
      using False Cons by (simp add: match_float_items match_unsigned_None)
  qed
qed

lemma match_float_Some:
  assumes "float_token s = Some (t, rest)"
  shows "\<exists>others. match_items float_items s = rest # others \<and> list_all digit_led others"
proof (cases s)
  case Nil
  with assms show ?thesis by (simp add: float_token_def)
next
  case (Cons c r)
  show ?thesis
  proof (cases "c = CHR ''-''")
    case True
    with assms Cons obtain u where "unsigned_token r = Some (u, rest)"
      by (auto simp: float_token_def)
    from match_unsigned_Some [OF this] True Cons show ?thesis
      unfolding match_float_items by simp
  next
    case False
    with assms Cons have "unsigned_token s = Some (t, rest)"
      by (simp add: float_token_def)
    from match_unsigned_Some [OF this] False Cons show ?thesis
      unfolding match_float_items by simp
  qed
qed

lemma float_token_append:
  assumes "float_token s = Some (t, rest)"
  shows "s = t @ rest"
proof (cases s)
  case Nil
  with assms show ?thesis by (simp add: float_token_def)
next
  case (Cons c r)
  show ?thesis
  proof (cases "c = CHR ''-''")
    case True
    with assms Cons obtain u where "unsigned_token r = Some (u, rest)" "t = CHR ''-'' # u"
      by (auto simp: float_token_def)
    then show ?thesis using unsigned_token_append [of r u rest] True Cons by simp
  next
    case False
    with assms Cons have "unsigned_token s = Some (t, rest)"
      by (simp add: float_token_def)
    then show ?thesis by (rule unsigned_token_append)
  qed
qed

lemma float_token_take:
  assumes "float_token s = Some (t, rest)"
  shows "take (length s - length rest) s = t"
  using float_token_append [OF assms] by simp


lemma match_groups_float:
  "match_groups [(True, float_items)] s =
     map (\<lambda>r. ([take (length s - length r) s], r)) (match_items float_items s)"
  by (simp add: match_groups.simps concat_map_singleton)

lemma re_match_float:
  "re_match float_pattern s = map_option (\<lambda>(t, rest). ([t], rest)) (float_token s)"
proof (cases "float_token s")
  case None
  then show ?thesis
    by (simp add: re_match_def float_pattern_def match_groups_float match_float_None)
next
  case (Some p)
  obtain t rest where p: "p = (t, rest)" by (cases p)
  obtain others where "match_items float_items s = rest # others"
    using match_float_Some Some p by blast
  then show ?thesis
    using Some p float_token_take [of s t rest]
    by (simp add: re_match_def float_pattern_def match_groups_float)
qed

lemma match_comma_float:
  "match_groups ((False, [One (Lit CHR '','')]) # gs) r =
     (case r of [] \<Rightarrow> []
      | d # r2 \<Rightarrow> if d = CHR '','' then match_groups gs r2 else [])"
  by (subst match_groups.simps) (simp add: match_items.simps split: list.split)

lemma match_comma_float_digit_led:
  "digit_led r \<Longrightarrow> match_groups ((False, [One (Lit CHR '','')]) # gs) r = []"
  unfolding match_comma_float by (auto simp: digit_led_def split: list.splits)

lemma match_groups_after_at:
  "match_groups ((True, float_items) # gs) r0 =
     concat (map (\<lambda>r. map (\<lambda>(groups, rest). (take (length r0 - length r) r0 # groups, rest))
                        (match_groups gs r))
                 (match_items float_items r0))"
  by (subst match_groups.simps) simp

lemma match_groups_marker:
  "match_groups marker_pattern s =
     (case s of [] \<Rightarrow> []
      | c # r0 \<Rightarrow>
          if c = CHR ''@''
          then match_groups [(True, float_items), (False, [One (Lit CHR '','')]), (True, float_items)] r0
          else [])"
  unfolding marker_pattern_def
  by (subst match_groups.simps) (simp add: match_items.simps split: list.split)

lemma concat_map_digit_led_others:
  assumes "list_all digit_led others"
  shows "concat (map (\<lambda>r. map (f r)
            (match_groups [(False, [One (Lit CHR '','')]), (True, float_items)] r)) others) = []"
  using assms by (induction others) (simp_all add: match_comma_float_digit_led)

lemma re_match_marker:
  "map_option fst (re_match marker_pattern s) = map_option (\<lambda>(a, b). [a, b]) (marker_at s)"
proof (cases s)
  case Nil
  then show ?thesis by (simp add: re_match_def match_groups_marker marker_at_def)
next
  case (Cons c r0)
  show ?thesis
  proof (cases "c = CHR ''@''")
    case False
    with Cons show ?thesis by (simp add: re_match_def match_groups_marker marker_at_def)
  next
    case True
    show ?thesis
    proof (cases "float_token r0")
      case None
      with True Cons show ?thesis
        by (simp add: re_match_def match_groups_marker marker_at_def match_groups_after_at
            match_float_None)
    next
      case (Some p)
      obtain a r1 where p: "p = (a, r1)" by (cases p)
      obtain others where others: "match_items float_items r0 = r1 # others"
          "list_all digit_led others"
        using match_float_Some Some p by blast
      have a: "take (length r0 - length r1) r0 = a"
        using Some p by (simp add: float_token_take)
      have m: "match_groups [(True, float_items), (False, [One (Lit CHR '','')]), (True, float_items)] r0
          = map (\<lambda>(groups, rest). (a # groups, rest))
              (match_groups [(False, [One (Lit CHR '','')]), (True, float_items)] r1)"
        unfolding match_groups_after_at others(1)
        using concat_map_digit_led_others [OF others(2)] a by simp
      show ?thesis
      proof (cases r1)
        case Nil
        with True Cons Some p m show ?thesis
          by (simp add: re_match_def match_groups_marker marker_at_def match_comma_float)
      next
        case (Cons d r2)
        note r1 = this
        show ?thesis
        proof (cases "d = CHR '',''")
          case False
          with True \<open>s = c # r0\<close> Some p m r1 show ?thesis
            by (simp add: re_match_def match_groups_marker marker_at_def match_comma_float)
        next
          case comma: True
          have g: "match_groups [(False, [One (Lit CHR '','')]), (True, float_items)] r1
              = match_groups float_pattern r2"
            using r1 comma by (simp add: match_comma_float float_pattern_def)
          show ?thesis
          proof (cases "float_token r2")
            case None
            then have "re_match float_pattern r2 = None"
              by (simp add: re_match_float)
            then have "match_groups float_pattern r2 = []"
              by (simp add: re_match_def split: list.splits)
            with True \<open>s = c # r0\<close> Some p m r1 comma g None show ?thesis
              by (simp add: re_match_def match_groups_marker marker_at_def)
          next
            case (Some q)
            obtain b r3 where q: "q = (b, r3)" by (cases q)
            have "re_match float_pattern r2 = Some ([b], r3)"
              using Some q by (simp add: re_match_float)
            then obtain ts where "match_groups float_pattern r2 = ([b], r3) # ts"
              by (auto simp: re_match_def split: list.splits)
            with True \<open>s = c # r0\<close> \<open>float_token r0 = Some p\<close> p m r1 comma g Some q show ?thesis
              by (simp add: re_match_def match_groups_marker marker_at_def)
          qed
        qed
      qed
    qed
  qed
qed

lemma marker_at_Nil [simp]: "marker_at [] = None"
  by (simp add: marker_at_def)

lemma re_search_marker:
  "re_search marker_pattern s = map_option (\<lambda>(a, b). [a, b]) (first_marker s)"
proof (induction s)
  case Nil
  show ?case using re_match_marker [of "[]"] by simp
next
  case (Cons c cs)
  show ?case
  proof (cases "marker_at (c # cs)")
    case None
    then have "re_match marker_pattern (c # cs) = None"
      using re_match_marker [of "c # cs"] by simp
    with None Cons show ?thesis by simp
  next
    case (Some m)
    then obtain m' where "re_match marker_pattern (c # cs) = Some m'"
        "fst m' = (\<lambda>(a, b). [a, b]) m"
      using re_match_marker [of "c # cs"] by auto
    with Some show ?thesis by simp
  qed
qed

lemma float_token_shorter:
  assumes "float_token s = Some (t, rest)"
  shows "length rest < length s"
proof -
  have "s = t @ rest" using assms by (rule float_token_append)
  moreover have "t \<noteq> []"
  proof (cases s)
    case Nil
    with assms show ?thesis by (simp add: float_token_def)
  next
    case (Cons c r)
    show ?thesis
    proof (cases "c = CHR ''-''")
      case True
      with assms Cons show ?thesis by (auto simp: float_token_def)
    next
      case False
      with assms Cons have "unsigned_token s = Some (t, rest)"
        by (simp add: float_token_def)
      then obtain r2 where "t = takeWhile is_digit s @ CHR ''.'' # takeWhile is_digit r2"
        by (rule unsigned_token_SomeD)
      then show ?thesis by simp
    qed
  qed
  ultimately show ?thesis
    by (cases t) simp_all
qed

lemma re_findall_float: "concat (re_findall float_pattern s) = float_tokens s"
proof (induction s rule: float_tokens.induct)
  case 1
  show ?case by (simp add: re_match_float float_token_def)
next
  case (2 c cs)
  show ?case
  proof (cases "float_token (c # cs)")
    case None
    with 2 show ?thesis by (simp add: re_match_float)
  next
    case (Some p)
    obtain t rest where p: "p = (t, rest)" by (cases p)
    have "length rest < length (c # cs)"
      using Some p float_token_shorter by blast
    with 2(2) [OF Some p [symmetric]] Some p show ?thesis
      by (simp add: re_match_float)
  qed
qed


lemma py_float_unsigned:
  assumes "is_digit d" and "\<forall>c\<in>set ds. is_digit c" and "\<forall>c\<in>set fp. is_digit c"
  shows "py_float (d # ds @ CHR ''.'' # fp) = Inr (unsigned_value (d # ds @ CHR ''.'' # fp))"
    and "py_float (CHR ''-'' # d # ds @ CHR ''.'' # fp)
           = Inr (- unsigned_value (d # ds @ CHR ''.'' # fp))"
proof -
  have d': "d \<noteq> CHR ''-''" "d \<noteq> CHR ''+''" "d \<noteq> CHR ''.''"
    using assms(1) by (auto simp: is_digit_def)
  have tw: "takeWhile is_digit (ds @ CHR ''.'' # fp) = ds"
    using assms(2) by (simp add: takeWhile_append2)
  have dw: "dropWhile is_digit (ds @ CHR ''.'' # fp) = CHR ''.'' # fp"
    using assms(2) by (simp add: dropWhile_append2)
  have nd: "\<forall>c\<in>set ds. c \<noteq> CHR ''.''"
    using assms(2) by auto
  have tw': "takeWhile (\<lambda>c. c \<noteq> CHR ''.'') (ds @ CHR ''.'' # fp) = ds"
    using nd by (simp add: takeWhile_append2)
  have dw': "dropWhile (\<lambda>c. c \<noteq> CHR ''.'') (ds @ CHR ''.'' # fp) = CHR ''.'' # fp"
    using nd by (simp add: dropWhile_append2)
  have all: "list_all is_digit fp"
    using assms(3) by (simp add: list_all_iff)
  have u: "unsigned_value (d # ds @ CHR ''.'' # fp)
      = real (digits_val (d # ds)) + real (digits_val fp) / 10 ^ length fp"
    using d' by (simp add: unsigned_value_def tw' dw')
  show "py_float (d # ds @ CHR ''.'' # fp) = Inr (unsigned_value (d # ds @ CHR ''.'' # fp))"
    using d' assms(1) all by (simp add: py_float_def tw dw u)
  show "py_float (CHR ''-'' # d # ds @ CHR ''.'' # fp)
      = Inr (- unsigned_value (d # ds @ CHR ''.'' # fp))"
    using d' assms(1) all by (simp add: py_float_def tw dw u)
qed

lemma py_float_token:
  assumes "float_token s = Some (t, rest)"
  shows "py_float t = Inr (decimal_value t)"
proof -
  have u: "py_float w = Inr (unsigned_value w) \<and> py_float (CHR ''-'' # w) = Inr (- unsigned_value w)
      \<and> (\<exists>d ds. w = d # ds \<and> is_digit d)"
    if "unsigned_token r = Some (w, rest')" for r w rest'
  proof -
    from that obtain r2 where w: "w = takeWhile is_digit r @ CHR ''.'' # takeWhile is_digit r2"
        and ne: "takeWhile is_digit r \<noteq> []"
      by (rule unsigned_token_SomeD)
    have a: "\<forall>c\<in>set (takeWhile is_digit r). is_digit c" "\<forall>c\<in>set (takeWhile is_digit r2). is_digit c"
      by (auto dest: set_takeWhileD)
    obtain d ds where dds: "takeWhile is_digit r = d # ds"
      using ne by (cases "takeWhile is_digit r") auto
    with a(1) have "is_digit d" "\<forall>c\<in>set ds. is_digit c"
      by simp_all
    from py_float_unsigned [OF this a(2)] \<open>is_digit d\<close> show ?thesis
      by (simp add: w dds)
  qed
  show ?thesis
  proof (cases s)
    case Nil
    with assms show ?thesis by (simp add: float_token_def)
  next
    case (Cons c r)
    show ?thesis
    proof (cases "c = CHR ''-''")
      case True
      with assms Cons obtain w where "unsigned_token r = Some (w, rest)" "t = CHR ''-'' # w"
        by (auto simp: float_token_def)
      with u [of r w rest] show ?thesis
        by (simp add: decimal_value_def)
    next
      case False
      with assms Cons have "unsigned_token s = Some (t, rest)"
        by (simp add: float_token_def)
      from u [OF this] show ?thesis
        by (auto simp: decimal_value_def)
    qed
  qed
qed

lemma marker_at_tokens:
  assumes "marker_at s = Some (a, b)"
  shows "py_float a = Inr (decimal_value a) \<and> py_float b = Inr (decimal_value b)"
proof -
  from assms obtain r0 r1 r2 r3 where "float_token r0 = Some (a, r1)" "float_token r2 = Some (b, r3)"
    by (auto simp: marker_at_def split: list.splits if_splits option.splits)
  then show ?thesis
    using py_float_token by blast
qed

lemma first_marker_tokens:
  assumes "first_marker s = Some (a, b)"
  shows "py_float a = Inr (decimal_value a) \<and> py_float b = Inr (decimal_value b)"
  using assms
proof (induction s)
  case Nil
  then show ?case by simp
next
  case (Cons c cs)
  then show ?case
    by (cases "marker_at (c # cs)") (auto dest: marker_at_tokens)
qed

lemma float_tokens_values:
  "t \<in> set (float_tokens s) \<Longrightarrow> py_float t = Inr (decimal_value t)"
proof (induction s rule: float_tokens.induct)
  case 1
  then show ?case by simp
next
  case (2 c cs)
  show ?case
  proof (cases "float_token (c # cs)")
    case None
    with 2 show ?thesis by simp
  next
    case (Some p)
    obtain u rest where p: "p = (u, rest)" by (cases p)
    from 2(3) Some p have "t = u \<or> t \<in> set (float_tokens rest)"
      by simp
    then show ?thesis
      using 2(2) [OF Some p [symmetric]] py_float_token Some p by blast
  qed
qed

lemma has_decimal_Cons: "has_decimal s \<Longrightarrow> has_decimal (c # s)"
  by (cases s rule: has_decimal.cases) simp_all

lemma has_decimal_digits_point:
  assumes "ip \<noteq> []" and "\<forall>c\<in>set ip. is_digit c" and "is_digit d"
  shows "has_decimal (ip @ CHR ''.'' # d # r)"
  using assms
proof (induction ip)
  case Nil
  then show ?case by simp
next
  case (Cons a ip)
  show ?case
  proof (cases ip)
    case Nil
    with Cons.prems show ?thesis by simp
  next
    case (Cons b ip')
    with Cons.prems Cons.IH have "has_decimal (ip @ CHR ''.'' # d # r)"
      by simp
    then show ?thesis
      using has_decimal_Cons by simp
  qed
qed

lemma unsigned_token_has_decimal:
  assumes "unsigned_token s = Some (t, rest)"
  shows "has_decimal s"
proof -
  from assms obtain r2 where r2: "dropWhile is_digit s = CHR ''.'' # r2"
      "takeWhile is_digit s \<noteq> []" "takeWhile is_digit r2 \<noteq> []"
    by (rule unsigned_token_SomeD)
  obtain d ds where d: "r2 = d # ds" "is_digit d"
    using r2(3) by (cases r2) (auto split: if_splits)
  have "\<forall>c\<in>set (takeWhile is_digit s). is_digit c"
    by (auto dest: set_takeWhileD)
  from has_decimal_digits_point [OF r2(2) this d(2), of ds]
  have "has_decimal (takeWhile is_digit s @ dropWhile is_digit s)"
    by (simp add: r2(1) d(1))
  then show ?thesis by simp
qed

lemma float_token_has_decimal:
  assumes "float_token s = Some (t, rest)"
  shows "has_decimal s"
proof (cases s)
  case Nil
  with assms show ?thesis by (simp add: float_token_def)
next
  case (Cons c r)
  show ?thesis
  proof (cases "c = CHR ''-''")
    case True
    with assms Cons obtain w where "unsigned_token r = Some (w, rest)"
      by (auto simp: float_token_def)
    then show ?thesis
      using unsigned_token_has_decimal has_decimal_Cons Cons by blast
  next
    case False
    with assms Cons have "unsigned_token s = Some (t, rest)"
      by (simp add: float_token_def)
    then show ?thesis by (rule unsigned_token_has_decimal)
  qed
qed

lemma no_decimal_no_token: "\<not> has_decimal s \<Longrightarrow> float_token s = None"
  using float_token_has_decimal by (cases "float_token s") auto

lemma no_decimal_float_tokens: "\<not> has_decimal s \<Longrightarrow> float_tokens s = []"
proof (induction s rule: float_tokens.induct)
  case 1
  show ?case by simp
next
  case (2 c cs)
  have "\<not> has_decimal cs"
    using 2(3) has_decimal_Cons by blast
  with 2 show ?case
    by (simp add: no_decimal_no_token)
qed

lemma no_decimal_first_marker: "\<not> has_decimal s \<Longrightarrow> first_marker s = None"
proof (induction s)
  case Nil
  show ?case by simp
next
  case (Cons c cs)
  have tail: "\<not> has_decimal cs"
    using Cons.prems has_decimal_Cons by blast
  then have "float_token cs = None"
    by (rule no_decimal_no_token)
  then have "marker_at (c # cs) = None"
    by (simp add: marker_at_def)
  with Cons.IH [OF tail] show ?case by simp
qed

lemma coordinates_body_eq_reference:
  "coordinates_body url = Inr (resolve_reference url)"
proof (cases "first_marker url")
  case (Some m)
  obtain a b where m: "m = (a, b)" by (cases m)
  have "re_search marker_pattern url = Some [a, b]"
    using Some m by (simp add: re_search_marker)
  moreover have "py_float a = Inr (decimal_value a)" "py_float b = Inr (decimal_value b)"
    using first_marker_tokens Some m by blast+
  ultimately show ?thesis
    using Some m
    by (simp add: coordinates_body_def resolve_reference_def index_def bind_exn_def)
next
  case None
  then have search: "re_search marker_pattern url = None"
    by (simp add: re_search_marker)
  show ?thesis
  proof (cases "float_tokens url")
    case Nil
    with None search show ?thesis
      by (simp add: coordinates_body_def resolve_reference_def re_findall_float)
  next
    case (Cons a ts)
    note first = this
    show ?thesis
    proof (cases ts)
      case Nil
      with None search first show ?thesis
        by (simp add: coordinates_body_def resolve_reference_def re_findall_float)
    next
      case (Cons b ts')
      have "py_float a = Inr (decimal_value a)" "py_float b = Inr (decimal_value b)"
        using float_tokens_values [of _ url] first Cons by simp_all
      with None search first Cons show ?thesis
        by (simp add: coordinates_body_def resolve_reference_def re_findall_float index_def
            bind_exn_def)
    qed
  qed
qed

lemma resolve_reference_no_decimal:
  "\<not> has_decimal url \<Longrightarrow> resolve_reference url = (None, None)"
  by (simp add: resolve_reference_def no_decimal_first_marker no_decimal_float_tokens)

lemma extract_coordinates_eq_reference:
  "extract_coordinates_from_url url = resolve_reference url"
  by (simp add: extract_coordinates_from_url_def coordinates_body_eq_reference)

lemma extract_both_or_none:
  "extract_coordinates_from_url url = (None, None)
   \<or> (\<exists>a b. extract_coordinates_from_url url = (Some a, Some b))"
  unfolding extract_coordinates_eq_reference
  by (auto simp: resolve_reference_def split: option.splits list.splits)

lemmas resolver_eval = resolve_reference_def marker_at_def float_token_def unsigned_token_def
  decimal_value_def unsigned_value_def digits_val_def digit_val_def is_digit_def

text \<open>
  Claim C2. \<open>extract_coordinates_from_url\<close> returns a pair for every string and no
  exception is raised inside its \<open>try\<close> block; the pair is the one of the tiered reference
  resolver: the two numbers of the first \<open>@<float>,<float>\<close> marker, otherwise the first
  two float-looking tokens in order of appearance, otherwise \<open>(None, None)\<close>.
\<close>

theorem extract_coordinates_refines_reference:
  "coordinates_body url = Inr (resolve_reference url) \<and>
   extract_coordinates_from_url url = resolve_reference url"
  by (simp add: extract_coordinates_from_url_def coordinates_body_eq_reference)

text \<open>
  Claim C10. A string without a digit, a point and a digit in a row has no float-looking
  token, and \<open>extract_coordinates_from_url\<close> returns \<open>(None, None)\<close> for it; so it does for the
  marker with integer coordinates \<open>@38,-77,15z\<close>.
\<close>

theorem integers_are_unresolved:
  "\<not> has_decimal url \<Longrightarrow> extract_coordinates_from_url url = (None, None)"
  by (simp add: extract_coordinates_from_url_def coordinates_body_eq_reference
      resolve_reference_no_decimal)

theorem integers_are_unresolved_witness:
  "\<not> has_decimal ''@38,-77,15z'' \<and> extract_coordinates_from_url ''@38,-77,15z'' = (None, None)"
proof -
  have h: "\<not> has_decimal ''@38,-77,15z''"
    by (simp add: is_digit_def)
  show ?thesis
    using h integers_are_unresolved [OF h] by simp
qed

subsection \<open>Properties of \<open>haversine_distance\<close>\<close>

lemma haversine_a_same: "haversine_a lat lon lat lon = 0"
  by (simp add: haversine_a_def radians_def)

lemma haversine_same_point: "haversine_distance lat lon lat lon = Inr 0"
  by (simp add: haversine_distance_def haversine_a_same haversine_c_def py_sqrt_def bind_exn_def
      atan2_def)

lemma haversine_a_sym: "haversine_a lat1 lon1 lat2 lon2 = haversine_a lat2 lon2 lat1 lon1"
proof -
  have neg: "radians (y - x) / 2 = - (radians (x - y) / 2)" for x y
    by (simp add: radians_def field_simps)
  have "sin (radians (lat2 - lat1) / 2) = - sin (radians (lat1 - lat2) / 2)"
    unfolding neg [of lat2 lat1] by (rule sin_minus)
  moreover have "sin (radians (lon2 - lon1) / 2) = - sin (radians (lon1 - lon2) / 2)"
    unfolding neg [of lon2 lon1] by (rule sin_minus)
  ultimately show ?thesis
    by (simp add: haversine_a_def Let_def mult.commute)
qed

lemma haversine_symmetric:
  "haversine_distance lat1 lon1 lat2 lon2 = haversine_distance lat2 lon2 lat1 lon1"
  by (simp add: haversine_distance_def haversine_a_sym [of lat1 lon1 lat2 lon2])

lemma sin_sq_half: "(sin (x / 2))\<^sup>2 = (1 - cos x) / 2" for x :: real
  using cos_double_sin [of "x / 2"] by simp

lemma haversine_a_range: "0 \<le> haversine_a lat1 lon1 lat2 lon2 \<and> haversine_a lat1 lon1 lat2 lon2 \<le> 1"
proof -
  define p1 where "p1 = radians lat1"
  define p2 where "p2 = radians lat2"
  define t where "t = (sin (radians (lon2 - lon1) / 2))\<^sup>2"
  have d: "radians (lat2 - lat1) = p2 - p1"
    by (simp add: radians_def p1_def p2_def left_diff_distrib)
  have a: "haversine_a lat1 lon1 lat2 lon2 = (1 - cos (p2 - p1)) / 2 + cos p1 * cos p2 * t"
    by (simp add: haversine_a_def Let_def d sin_sq_half p1_def p2_def t_def)
  have t: "0 \<le> t" "t \<le> 1"
    using abs_sin_le_one [of "radians (lon2 - lon1) / 2"]
    by (simp_all add: t_def abs_square_le_1)
  have half: "0 \<le> (1 - c) / 2 \<and> (1 - c) / 2 \<le> 1 \<and> 0 \<le> (1 + c) / 2 \<and> (1 + c) / 2 \<le> 1"
    if "- 1 \<le> c" "c \<le> 1" for c :: real
    using that by simp
  have a0: "0 \<le> (1 - cos (p2 - p1)) / 2" "(1 - cos (p2 - p1)) / 2 \<le> 1"
    using half [OF cos_ge_minus_one cos_le_one, of "p2 - p1"] by blast+
  have a1: "(1 - cos (p2 - p1)) / 2 + cos p1 * cos p2 = (1 + cos (p1 + p2)) / 2"
    by (simp add: cos_diff cos_add field_simps)
  have a1': "0 \<le> (1 + cos (p1 + p2)) / 2" "(1 + cos (p1 + p2)) / 2 \<le> 1"
    using half [OF cos_ge_minus_one cos_le_one, of "p1 + p2"] by blast+
  have conv: "(1 - cos (p2 - p1)) / 2 + cos p1 * cos p2 * t
      = (1 - t) * ((1 - cos (p2 - p1)) / 2) + t * ((1 - cos (p2 - p1)) / 2 + cos p1 * cos p2)"
    by (simp add: field_simps)
  have "0 \<le> (1 - t) * ((1 - cos (p2 - p1)) / 2) + t * ((1 + cos (p1 + p2)) / 2)"
    using t a0 a1' by (intro add_nonneg_nonneg mult_nonneg_nonneg) simp_all
  moreover have "(1 - t) * ((1 - cos (p2 - p1)) / 2) + t * ((1 + cos (p1 + p2)) / 2)
      \<le> (1 - t) * 1 + t * 1"
    using t a0 a1' by (intro add_mono mult_left_mono) simp_all
  ultimately show ?thesis
    unfolding a conv a1 by simp
qed

lemma haversine_total: "\<exists>d. haversine_distance lat1 lon1 lat2 lon2 = Inr d"
  using haversine_a_range [of lat1 lon1 lat2 lon2]
  by (simp add: haversine_distance_def haversine_c_def py_sqrt_def bind_exn_def Let_def)

lemma haversine_a_antipodal: "haversine_a lat lon (- lat) (lon + 180) = 1"
proof -
  have "radians (lon + 180 - lon) / 2 = pi / 2"
    by (simp add: radians_def)
  moreover have "radians (- lat - lat) / 2 = - radians lat"
    by (simp add: radians_def)
  moreover have "radians (- lat) = - radians lat"
    by (simp add: radians_def)
  ultimately show ?thesis
    by (simp add: haversine_a_def Let_def power2_eq_square [symmetric])
qed

lemma haversine_antipodal:
  "haversine_distance lat lon (- lat) (lon + 180) = Inr (6371000 * pi)"
  by (simp add: haversine_distance_def haversine_a_antipodal haversine_c_def py_sqrt_def
      bind_exn_def atan2_def)

lemma haversine_c_above_one: "1 < a \<Longrightarrow> haversine_c a = Inl ValueError"
  by (simp add: haversine_c_def py_sqrt_def bind_exn_def)



subsection \<open>Properties of the row assembly\<close>

lemma extract_equator:
  "extract_coordinates_from_url ''/maps/place/Quay/@0.0,5.5,15z'' = (Some 0, Some (11 / 2))"
  unfolding extract_coordinates_eq_reference
  by (simp add: resolver_eval)

lemma extract_empty: "extract_coordinates_from_url [] = (None, None)"
  unfolding extract_coordinates_eq_reference
  by (simp add: resolver_eval)

lemma make_row_unresolved:
  assumes "extract_coordinates_from_url (link p) = (None, None)" and "lat \<noteq> 0" and "lon \<noteq> 0"
  shows "make_row query lat lon p
     = Inr [Str (name p), Str (rating p), Str (reviews p), Fixed 6 lat, Fixed 6 lon,
            Str query, Fixed 6 lat, Fixed 6 lon, Fixed 1 0]"
  using assms
  by (simp add: make_row_def truthy_float_def bind_exn_def haversine_same_point)

lemma make_row_resolved:
  assumes "extract_coordinates_from_url (link p) = (Some a, Some b)" and "a \<noteq> 0" and "b \<noteq> 0"
  shows "\<exists>d. haversine_distance lat lon a b = Inr d \<and>
     make_row query lat lon p
     = Inr [Str (name p), Str (rating p), Str (reviews p), Fixed 6 a, Fixed 6 b,
            Str query, Fixed 6 lat, Fixed 6 lon, Fixed 1 d]"
proof -
  obtain d where "haversine_distance lat lon a b = Inr d"
    using haversine_total by blast
  with assms show ?thesis
    by (simp add: make_row_def truthy_float_def bind_exn_def)
qed

lemmas listing_eval = bind_exn_def card_link_def card_name_def card_rating_def
  card_reviews_def find_first_def find_all_def has_attr_def has_class_def truthy_def
  or_else_def get_text_strip_def strip_chars_def is_space_def select_cards_def
  parse_left_panel_pois_def

lemma parse_page_quay: "parse_left_panel_pois page_quay 10 = Inr [poi_equator]"
  by (simp add: page_quay_def card_quay_def poi_equator_def listing_eval)

lemma parse_page_hall: "parse_left_panel_pois page_hall 10 = Inr [poi_nolink]"
  by (simp add: page_hall_def card_hall_def poi_nolink_def listing_eval)

text \<open>
  Claim C3. The latitude and longitude cells of a row should be both the resolved coordinates
  or both the centre of the cell. The two cells are written under a truth test each, and a
  coordinate equal to zero is false: for a place on the equator, resolved from its link as
  \<open>(0.0, 5.5)\<close>, the latitude cell is \<open>N/A\<close> while the longitude cell holds the resolved
  longitude, and the distance is empty. So is the row that \<open>scrape_for_query\<close> returns for a
  page with that place.
\<close>

theorem row_of_equator_place_lacks_latitude:
  "make_row ''Arena'' (389 / 10) (- (7703 / 100)) poi_equator
     = Inr [Str ''Quay'', Str ''4.5'', Str ''120'', Str ''N/A'', Fixed 6 (11 / 2),
            Str ''Arena'', Fixed 6 (389 / 10), Fixed 6 (- (7703 / 100)), Str []] \<and>
   scrape_for_query page_quay ''Arena'' (389 / 10) (- (7703 / 100)) 10
     = Inr [[Str ''Quay'', Str ''4.5'', Str ''120'', Str ''N/A'', Fixed 6 (11 / 2),
             Str ''Arena'', Fixed 6 (389 / 10), Fixed 6 (- (7703 / 100)), Str []]]"
proof -
  have "make_row ''Arena'' (389 / 10) (- (7703 / 100)) poi_equator
     = Inr [Str ''Quay'', Str ''4.5'', Str ''120'', Str ''N/A'', Fixed 6 (11 / 2),
            Str ''Arena'', Fixed 6 (389 / 10), Fixed 6 (- (7703 / 100)), Str []]"
    by (simp add: make_row_def poi_equator_def extract_equator truthy_float_def bind_exn_def)
  then show ?thesis
    by (simp add: scrape_for_query_def parse_page_quay bind_exn_def)
qed

text \<open>
  Claim C4. A candidate whose link does not resolve should get the centre of the cell as
  position and the distance 0. It does when both coordinates of the centre differ from zero
  (\<open>make_row_unresolved\<close>). For a cell centred on the equator the same truth tests fail: the
  latitude cell is \<open>N/A\<close> and the distance cell is empty, in the row and in what
  \<open>scrape_for_query\<close> returns for a page with that candidate.
\<close>

theorem fallback_row_on_equator_lacks_distance:
  "make_row ''Arena'' 0 10 poi_nolink
     = Inr [Str ''Hall Two'', Str [], Str [], Str ''N/A'', Fixed 6 10,
            Str ''Arena'', Fixed 6 0, Fixed 6 10, Str []] \<and>
   scrape_for_query page_hall ''Arena'' 0 10 10
     = Inr [[Str ''Hall Two'', Str [], Str [], Str ''N/A'', Fixed 6 10,
             Str ''Arena'', Fixed 6 0, Fixed 6 10, Str []]]"
proof -
  have "make_row ''Arena'' 0 10 poi_nolink
     = Inr [Str ''Hall Two'', Str [], Str [], Str ''N/A'', Fixed 6 10,
            Str ''Arena'', Fixed 6 0, Fixed 6 10, Str []]"
    by (simp add: make_row_def poi_nolink_def extract_empty truthy_float_def bind_exn_def)
  then show ?thesis
    by (simp add: scrape_for_query_def parse_page_hall bind_exn_def)
qed

subsection \<open>Properties of the grid traversal\<close>

lemma steps_0: "\<not> x \<le> bound \<Longrightarrow> steps x bound step = 0"
  by (simp add: steps_def)










lemma steps_config0_lat: "steps (START_LAT config0) (END_LAT config0 + eps) (STEP_LAT config0) = 7"
  by (simp add: steps_def config0_def eps_def)

lemma steps_config0_lon: "steps (START_LON config0) (END_LON config0 + eps) (STEP_LON config0) = 2"
  by (simp add: steps_def config0_def eps_def)












end
